theory Spec2Isabelle
  imports Complex_Main "HOL-Library.Sublist"
begin

section \<open>Python exceptions as values\<close>

text \<open>
  Every \<^verbatim>\<open>raise\<close> of the modelled sources is a value of this type.  A
  \<^verbatim>\<open>ValueError\<close> carries its message, since two different validation messages
  occur in \<^verbatim>\<open>RNNLM.__init__\<close>.  \<^verbatim>\<open>UnboundLocalError\<close> is Python's subclass of
  \<^verbatim>\<open>NameError\<close> raised for a local variable read before assignment.
\<close>

datatype error =
    RuntimeError
  | ValueError string
  | NotImplementedError
  | IndexError
  | NameError string
  | UnboundLocalError string
  | ZeroDivisionError

section \<open>Padding\<close>

text \<open>
  Modelled from the spec: \<^verbatim>\<open>pad_list\<close> of \<^verbatim>\<open>models.pytorch_v3.utils\<close> is not among the
  sources.  Following the specification (a rectangular batch \<open>\<times>\<close> max-length array produced
  by right-padding each sequence with a designated pad value), every row is extended on
  the right with the pad value up to the length of the longest row.
\<close>

definition pad_list :: "int list list \<Rightarrow> int \<Rightarrow> int list list" where
  "pad_list xs pad_value =
     (let max_time = fold max (map length xs) 0
      in map (\<lambda>x. x @ replicate (max_time - length x) pad_value) xs)"

section \<open>Greedy decoding: \<^verbatim>\<open>RNNLM.decode\<close>\<close>

text \<open>
  The network itself (embedding, recurrent stack, output projection, arg-max) is a
  library component and enters as the parameter \<open>rnn\<close>: for one row of the batch it maps
  the carried hidden state (\<open>None\<close> at the first step, as \<^verbatim>\<open>h = None\<close> in the source)
  and the current input token to the chosen next token and the new hidden state.  In
  evaluation mode the rows of a batch do not interact, so one step on the batch is the
  row-wise application of \<open>rnn\<close>.
\<close>

type_synonym 'h rnn_cell = "'h option \<Rightarrow> int \<Rightarrow> int \<times> 'h"

text \<open>
  The counting loop of the source:
  \<^verbatim>\<open>
  for b in range(batch_size):
      if not eos_flag[b]:
          if y_in.data.cpu().numpy()[b] == self.eos:
              eos_flag[b] = True
          y_lens[b] += 1
  \<close>
\<close>

definition count_step :: "int \<Rightarrow> int list \<Rightarrow> nat \<Rightarrow> bool list \<times> nat list \<Rightarrow> bool list \<times> nat list" where
  "count_step eos y_in b st =
     (case st of (eos_flag, y_lens) \<Rightarrow>
        if \<not> eos_flag ! b
        then ((if y_in ! b = eos then eos_flag[b := True] else eos_flag),
              y_lens[b := y_lens ! b + 1])
        else (eos_flag, y_lens))"

definition count_lengths :: "int \<Rightarrow> int list \<Rightarrow> nat \<Rightarrow> bool list \<times> nat list \<Rightarrow> bool list \<times> nat list" where
  "count_lengths eos y_in batch_size st = fold (count_step eos y_in) [0..<batch_size] st"

text \<open>
  The decoding loop \<^verbatim>\<open>for t in range(max_decode_len)\<close>, by recursion on the number of
  iterations that remain.  \<open>best_hyps\<close> is the Python list \<^verbatim>\<open>_best_hyps\<close> of the columns
  chosen so far; the \<^verbatim>\<open>break\<close> is taken when \<^verbatim>\<open>sum(eos_flag) == batch_size\<close>.
\<close>

fun decode_loop ::
  "'h rnn_cell \<Rightarrow> int \<Rightarrow> nat \<Rightarrow> nat \<Rightarrow> int list \<Rightarrow> 'h option list \<Rightarrow> int list list \<Rightarrow>
   bool list \<Rightarrow> nat list \<Rightarrow> int list list \<times> nat list" where
  "decode_loop rnn eos batch_size 0 y_in h best_hyps eos_flag y_lens = (best_hyps, y_lens)"
| "decode_loop rnn eos batch_size (Suc n) y_in h best_hyps eos_flag y_lens =
     (let out = map2 rnn h y_in;
          y_in' = map fst out;
          h' = map (\<lambda>r. Some (snd r)) out;
          best_hyps' = best_hyps @ [y_in'];
          st = count_lengths eos y_in' batch_size (eos_flag, y_lens)
      in if length (filter (\<lambda>f. f) (fst st)) = batch_size
         then (best_hyps', snd st)
         else decode_loop rnn eos batch_size n y_in' h' best_hyps' (fst st) (snd st))"

text \<open>
  \<^verbatim>\<open>decode\<close>: every start token is wrapped as a one-element row and the rows are padded
  into the first input \<^verbatim>\<open>y_in\<close> (one column); \<^verbatim>\<open>y_lens\<close> starts at \<^verbatim>\<open>[1] * batch_size\<close>,
  the flags at \<^verbatim>\<open>False\<close>, the hidden state at \<^verbatim>\<open>None\<close>.  \<^verbatim>\<open>torch.cat\<close> of an empty list
  (no iteration ran) raises.  Row \<open>b\<close> of the concatenated array is sliced with
  \<^verbatim>\<open>[:y_lens[b]]\<close>; a numpy slice past the end is clamped, which is \<open>take\<close>.  The function
  returns the list \<^verbatim>\<open>best_hyps\<close> alone.
\<close>

definition decode :: "'h rnn_cell \<Rightarrow> int \<Rightarrow> int list \<Rightarrow> int \<Rightarrow> error + int list list" where
  "decode rnn eos start_tokens max_decode_len =
     (let batch_size = length start_tokens;
          ys = map (\<lambda>y. [y]) start_tokens;
          y_in = map (\<lambda>row. row ! 0) (pad_list ys (- 1));
          r = decode_loop rnn eos batch_size (nat max_decode_len) y_in
                (replicate batch_size None) [] (replicate batch_size False)
                (replicate batch_size 1)
      in if fst r = [] then Inl RuntimeError
         else Inr (map (\<lambda>b. take (snd r ! b) (map (\<lambda>col. col ! b) (fst r))) [0..<batch_size]))"

text \<open>
  The tokens a single example chooses greedily in \<open>n\<close> steps from hidden state \<open>h\<close> and
  input token \<open>y\<close>: the reference against which the batch bookkeeping is stated.
\<close>

fun greedy :: "'h rnn_cell \<Rightarrow> 'h option \<Rightarrow> int \<Rightarrow> nat \<Rightarrow> int list" where
  "greedy rnn h y 0 = []"
| "greedy rnn h y (Suc n) = fst (rnn h y) # greedy rnn (Some (snd (rnn h y))) (fst (rnn h y)) n"

text \<open>
  The index of the first end-of-sequence token in a row (the length of the row when there
  is none), and row \<open>b\<close> of a list of columns.
\<close>

definition first_eos :: "int \<Rightarrow> int list \<Rightarrow> nat" where
  "first_eos eos row = length (takeWhile (\<lambda>y. y \<noteq> eos) row)"

definition row_of :: "nat \<Rightarrow> int list list \<Rightarrow> int list" where
  "row_of b cols = map (\<lambda>col. col ! b) cols"

text \<open>A test double for the network: a fixed table from the input token to the next one.\<close>

definition stub_rnn :: "unit rnn_cell" where
  "stub_rnn h y =
     ((if y = 0 then 5 else if y = 1 then 2 else if y = 2 then 5 else if y = 5 then 3 else 5), ())"

text \<open>Two more test doubles: a network that always chooses token 5, and one that never does.\<close>

definition always_eos :: "unit rnn_cell" where
  "always_eos h y = (5, ())"

definition never_eos :: "unit rnn_cell" where
  "never_eos h y = (4, ())"

section \<open>The language model: \<^verbatim>\<open>RNNLM\<close>\<close>

text \<open>
  Sequencing of statements that may raise: the first exception ends the computation.
\<close>

definition bind_err :: "error + 'a \<Rightarrow> ('a \<Rightarrow> error + 'b) \<Rightarrow> error + 'b" where
  "bind_err r f = (case r of Inl e \<Rightarrow> Inl e | Inr x \<Rightarrow> f x)"

text \<open>
  The attributes \<^verbatim>\<open>RNNLM.__init__\<close> sets on \<^verbatim>\<open>self\<close>.  The weight tensors, the dropout
  rates and the initialisation policy do not influence any branch of the modelled
  functions and are left out; the torch modules are the parameters \<open>rnn\<close> (above) and
  \<open>net\<close> (below).
\<close>

record rnnlm =
  self_model_type :: string
  self_embedding_dim :: int
  self_rnn_type :: string
  self_bidirectional :: bool
  self_num_directions :: int
  self_num_units :: int
  self_num_layers :: int
  self_tie_weights :: bool
  self_num_classes :: int
  self_sos :: int
  self_eos :: int

text \<open>
  \<^verbatim>\<open>RNNLM.__init__\<close>.  The statements follow the source in order: the check of
  \<^verbatim>\<open>rnn_type\<close>, then the \<^verbatim>\<open>if tie_weights:\<close> block, whose first statement is
  \<^verbatim>\<open>raise NotImplementedError\<close> and whose second is the validation of the dimensions,
  then the attributes.
\<close>

definition rnnlm_init :: "int \<Rightarrow> string \<Rightarrow> bool \<Rightarrow> int \<Rightarrow> int \<Rightarrow> int \<Rightarrow> bool \<Rightarrow> error + rnnlm" where
  \<open>rnnlm_init embedding_dim rnn_type bidirectional num_units num_layers num_classes tie_weights =
     bind_err
       (if rnn_type = ''lstm'' then Inr ()
        else if rnn_type = ''gru'' then Inr ()
        else if rnn_type = ''rnn'' then Inr ()
        else Inl (ValueError ''rnn_type must be "lstm" or "gru" or "rnn".''))
       (\<lambda>_. bind_err
          (if tie_weights
           then bind_err (Inl NotImplementedError :: error + unit)
                  (\<lambda>_. if num_units \<noteq> embedding_dim
                        then Inl (ValueError
                          ''When using the tied flag, num_units must be equal to embedding_dim'')
                        else Inr ())
           else Inr ())
          (\<lambda>_. Inr \<lparr> self_model_type = ''rnnlm'',
                      self_embedding_dim = embedding_dim,
                      self_rnn_type = rnn_type,
                      self_bidirectional = bidirectional,
                      self_num_directions = (if bidirectional then 2 else 1),
                      self_num_units = num_units,
                      self_num_layers = num_layers,
                      self_tie_weights = tie_weights,
                      self_num_classes = num_classes + 1,
                      self_sos = num_classes,
                      self_eos = num_classes \<rparr>))\<close>

text \<open>
  Python's \<^verbatim>\<open>sorted(xs, key=key, reverse=True)\<close>: the sort is stable, and with
  \<^verbatim>\<open>reverse=True\<close> elements with equal keys keep their original order (the list is
  reversed, sorted stably in ascending order and reversed again).
\<close>

definition sorted_reverse :: "('a \<Rightarrow> nat) \<Rightarrow> 'a list \<Rightarrow> 'a list" where
  "sorted_reverse key xs = rev (sort_key key (rev xs))"

text \<open>
  The batch preparation at the head of \<^verbatim>\<open>RNNLM.forward\<close>: the permutation
  \<^verbatim>\<open>perm_idx\<close>, the reordered sequences, the true lengths \<^verbatim>\<open>y_lens\<close>, and the two padded
  arrays.  \<^verbatim>\<open>ys[0]\<close> on an empty batch raises \<^verbatim>\<open>IndexError\<close>.  Token ids are Python
  integers; the conversion to 64-bit integers is the identity on every vocabulary id.
  The result is the tuple \<open>(perm_idx, ys_in, ys_out, y_lens)\<close>.
\<close>

definition prepare_batch ::
  "rnnlm \<Rightarrow> int list list \<Rightarrow> error + (nat list \<times> int list list \<times> int list list \<times> nat list)" where
  "prepare_batch self ys =
     (let perm_idx = sorted_reverse (\<lambda>i. length (ys ! i)) [0..<length ys];
          ys' = map (\<lambda>i. ys ! i) perm_idx;
          y_lens = map (\<lambda>y. length y + 1) ys'
      in if ys' = [] then Inl IndexError
         else
           (let ys_in = map (\<lambda>y. self_sos self # y) ys';
                ys_out = map (\<lambda>y. y @ [self_eos self]) ys'
            in Inr (perm_idx, pad_list ys_in (self_eos self), pad_list ys_out (- 1), y_lens)))"

text \<open>
  \<^verbatim>\<open>F.cross_entropy(input, target, ignore_index, size_average=False)\<close>: the sum, over
  the positions whose target is not \<open>ignore_index\<close>, of the negative log-likelihood
  \<open>nll\<close> of the target under the logits of that position.  Floating-point numbers are
  idealised as reals.
\<close>

definition cross_entropy :: "('l \<Rightarrow> int \<Rightarrow> real) \<Rightarrow> 'l list \<Rightarrow> int list \<Rightarrow> int \<Rightarrow> real" where
  "cross_entropy nll input target ignore_index =
     sum_list (map2 (\<lambda>x t. if t = ignore_index then 0 else nll x t) input target)"

text \<open>
  \<^verbatim>\<open>RNNLM.forward\<close>.  The parameter \<open>net\<close> stands for embedding, packing, recurrent stack,
  unpacking and output projection: from the mode flag, \<^verbatim>\<open>ys_in\<close> and \<^verbatim>\<open>y_lens\<close> it gives the
  logits at batch index \<open>b\<close> and time \<open>t\<close>.  \<^verbatim>\<open>logits.view((-1, C))\<close> and
  \<^verbatim>\<open>ys_out.view(-1)\<close> flatten row by row; the sum is divided by
  \<^verbatim>\<open>ys_out.size(0) * ys_out.size(1)\<close>.
\<close>

definition forward ::
  "rnnlm \<Rightarrow> (bool \<Rightarrow> int list list \<Rightarrow> nat list \<Rightarrow> nat \<Rightarrow> nat \<Rightarrow> 'l) \<Rightarrow> ('l \<Rightarrow> int \<Rightarrow> real) \<Rightarrow>
   int list list \<Rightarrow> bool \<Rightarrow> error + real" where
  "forward self net nll ys is_eval =
     bind_err (prepare_batch self ys)
       (\<lambda>(perm_idx, ys_in, ys_out, y_lens).
          let logits = net is_eval ys_in y_lens;
              size0 = length ys_out;
              size1 = length (ys_out ! 0);
              input = concat (map (\<lambda>b. map (logits b) [0..<size1]) [0..<size0]);
              target = concat ys_out
          in Inr (cross_entropy nll input target (- 1) / real (size0 * size1)))"

text \<open>
  Test data: the model built with vocabulary size 5 (so \<^verbatim>\<open>sos = eos = 5\<close>), and a network
  and a likelihood that charge one unit at every position.
\<close>

definition model5 :: rnnlm where
  "model5 = \<lparr> self_model_type = ''rnnlm'', self_embedding_dim = 2, self_rnn_type = ''lstm'',
      self_bidirectional = False, self_num_directions = 1, self_num_units = 3,
      self_num_layers = 1, self_tie_weights = False, self_num_classes = 6,
      self_sos = 5, self_eos = 5 \<rparr>"

definition unit_net :: "bool \<Rightarrow> int list list \<Rightarrow> nat list \<Rightarrow> nat \<Rightarrow> nat \<Rightarrow> unit" where
  "unit_net is_eval ys_in y_lens b t = ()"

definition unit_nll :: "unit \<Rightarrow> int \<Rightarrow> real" where
  "unit_nll x t = 1"

section \<open>The training-step executor: \<^verbatim>\<open>Updater\<close>\<close>

text \<open>
  A Python float: the loss value may be infinite or not a number, and the executor
  tests for the two infinities.
\<close>

datatype pyfloat = Finite real | PosInf | NegInf | NaN

text \<open>
  A batch is the dictionary with the keys \<^verbatim>\<open>'xs'\<close>, \<^verbatim>\<open>'ys'\<close> and \<^verbatim>\<open>'utt_ids'\<close>.
\<close>

record ('x, 'y) batch =
  batch_xs :: "'x list"
  batch_ys :: "'y list"
  batch_utt_ids :: "string list"

text \<open>
  What the executor can observe of a model: its parameters and the gradients accumulated
  on them.
\<close>

record ('p, 'g) model =
  model_parameters :: 'p
  model_grads :: 'g

text \<open>
  The autograd framework enters as four operations.  The forward computation and the
  gradient of the loss are functions of the parameters and the batch, so they read the
  parameters and cannot change them.  The optimizer's update writes the parameters in
  place: it returns the new parameters, or raises and leaves behind whatever it had
  written by then, which is the second component of its exception.  Clearing the gradients sets
  them to zero, a backward pass adds to them.  \<^verbatim>\<open>torch.cuda.empty_cache()\<close> and
  \<^verbatim>\<open>loss.detach()\<close> have no effect on parameters or gradients and do not appear.
\<close>

record ('p, 'g, 'x, 'y) backend_ops =
  op_forward :: "'p \<Rightarrow> 'x list \<Rightarrow> 'y list \<Rightarrow> bool \<Rightarrow> error + pyfloat"
  op_backward :: "'p \<Rightarrow> 'x list \<Rightarrow> 'y list \<Rightarrow> error + 'g"
  op_clip_grad_norm :: "real \<Rightarrow> 'g \<Rightarrow> 'g"
  op_step :: "'p \<Rightarrow> 'g \<Rightarrow> (error \<times> 'p) + 'p"

text \<open>
  \<^verbatim>\<open>except RuntimeError\<close> also catches the subclasses of \<^verbatim>\<open>RuntimeError\<close>, of which
  \<^verbatim>\<open>NotImplementedError\<close> is one.
\<close>

definition is_runtime_error :: "error \<Rightarrow> bool" where
  "is_runtime_error e = (e = RuntimeError \<or> e = NotImplementedError)"

text \<open>
  Statements that change the model and may raise: a step maps the model to the raised
  exception or the returned value, each with the model as it is at that point.
\<close>

type_synonym ('p, 'g, 'a) step = "('p, 'g) model \<Rightarrow> (error \<times> ('p, 'g) model) + ('a \<times> ('p, 'g) model)"

definition return_st :: "'a \<Rightarrow> ('p, 'g, 'a) step" where
  "return_st x m = Inr (x, m)"

definition bind_st :: "('p, 'g, 'a) step \<Rightarrow> ('a \<Rightarrow> ('p, 'g, 'b) step) \<Rightarrow> ('p, 'g, 'b) step" where
  "bind_st f k m = (case f m of Inl em \<Rightarrow> Inl em | Inr (x, m') \<Rightarrow> k x m')"

definition zero_grad :: "('p, 'g::monoid_add, unit) step" where
  "zero_grad m = Inr ((), m\<lparr>model_grads := 0\<rparr>)"

definition model_call ::
  "('p, 'g, 'x, 'y) backend_ops \<Rightarrow> ('x, 'y) batch \<Rightarrow> bool \<Rightarrow> ('p, 'g, pyfloat) step" where
  "model_call ops batch is_eval m =
     (case op_forward ops (model_parameters m) (batch_xs batch) (batch_ys batch) is_eval of
        Inl e \<Rightarrow> Inl (e, m)
      | Inr loss \<Rightarrow> Inr (loss, m))"

definition loss_backward ::
  "('p, 'g::monoid_add, 'x, 'y) backend_ops \<Rightarrow> ('x, 'y) batch \<Rightarrow> ('p, 'g, unit) step" where
  "loss_backward ops batch m =
     (case op_backward ops (model_parameters m) (batch_xs batch) (batch_ys batch) of
        Inl e \<Rightarrow> Inl (e, m)
      | Inr g \<Rightarrow> Inr ((), m\<lparr>model_grads := model_grads m + g\<rparr>))"

definition clip_grad_norm_step :: "('p, 'g, 'x, 'y) backend_ops \<Rightarrow> real \<Rightarrow> ('p, 'g, unit) step" where
  "clip_grad_norm_step ops c m =
     Inr ((), m\<lparr>model_grads := op_clip_grad_norm ops c (model_grads m)\<rparr>)"

definition optimizer_step :: "('p, 'g, 'x, 'y) backend_ops \<Rightarrow> ('p, 'g, unit) step" where
  "optimizer_step ops m =
     (case op_step ops (model_parameters m) (model_grads m) of
        Inl (e, p) \<Rightarrow> Inl (e, m\<lparr>model_parameters := p\<rparr>)
      | Inr p \<Rightarrow> Inr ((), m\<lparr>model_parameters := p\<rparr>))"

text \<open>
  The body of the \<^verbatim>\<open>try\<close> statement of \<^verbatim>\<open>Updater.__call__\<close>, branch by branch as in the
  source.  With a backend that is neither \<^verbatim>\<open>'pytorch'\<close> nor \<^verbatim>\<open>'chainer'\<close> no branch
  assigns \<^verbatim>\<open>loss\<close> and \<^verbatim>\<open>del loss\<close> raises \<^verbatim>\<open>UnboundLocalError\<close>.
\<close>

definition try_block ::
  "('p, 'g::monoid_add, 'x, 'y) backend_ops \<Rightarrow> real \<Rightarrow> string \<Rightarrow> ('x, 'y) batch \<Rightarrow> bool \<Rightarrow>
   ('p, 'g, pyfloat) step" where
  "try_block ops clip_grad_norm backend batch is_eval =
     (if backend = ''pytorch'' then
        (if is_eval then model_call ops batch True
         else
           bind_st zero_grad (\<lambda>_.
           bind_st (model_call ops batch False) (\<lambda>loss.
           bind_st (loss_backward ops batch) (\<lambda>_.
           bind_st (if clip_grad_norm > 0 then clip_grad_norm_step ops clip_grad_norm
                    else return_st ()) (\<lambda>_.
           bind_st (optimizer_step ops) (\<lambda>_.
           return_st loss))))))
      else if backend = ''chainer'' then
        (if is_eval then
           bind_st zero_grad (\<lambda>_.
           bind_st (model_call ops batch False) (\<lambda>loss.
           bind_st (loss_backward ops batch) (\<lambda>_.
           bind_st (optimizer_step ops) (\<lambda>_.
           return_st loss))))
         else model_call ops batch True)
      else (\<lambda>m. Inl (UnboundLocalError ''loss'', m)))"

text \<open>The guard \<^verbatim>\<open>if loss_val == INF or loss_val == -INF: loss_val = 0\<close>.\<close>

definition inf_guard :: "pyfloat \<Rightarrow> pyfloat" where
  "inf_guard loss_val = (if loss_val = PosInf \<or> loss_val = NegInf then Finite 0 else loss_val)"

text \<open>
  \<^verbatim>\<open>Updater.__call__\<close>.  \<^verbatim>\<open>loss_val\<close> is \<open>0\<close> until the \<^verbatim>\<open>try\<close> body has completed.  The
  handler first builds its log message, where \<^verbatim>\<open>max(len(x) for x in batch['xs'])\<close>
  raises \<^verbatim>\<open>ValueError\<close> on a batch without examples, then clears the gradients.  Any
  exception that is not a \<^verbatim>\<open>RuntimeError\<close> propagates.
\<close>

definition updater_call ::
  "('p, 'g::monoid_add, 'a list, 'y) backend_ops \<Rightarrow> real \<Rightarrow> string \<Rightarrow> ('p, 'g) model \<Rightarrow>
   ('a list, 'y) batch \<Rightarrow> bool \<Rightarrow> error + (('p, 'g) model \<times> pyfloat)" where
  "updater_call ops clip_grad_norm backend m batch is_eval =
     (case try_block ops clip_grad_norm backend batch is_eval m of
        Inr (loss_val, m') \<Rightarrow> Inr (m', inf_guard loss_val)
      | Inl (e, m') \<Rightarrow>
          if is_runtime_error e then
            (if batch_xs batch = [] then Inl (ValueError ''max() arg is an empty sequence'')
             else
               (case (if backend = ''pytorch'' then zero_grad m'
                      else if backend = ''chainer'' then zero_grad m'
                      else return_st () m') of
                  Inl (e', m'') \<Rightarrow> Inl e'
                | Inr (u, m'') \<Rightarrow> Inr (m'', inf_guard (Finite 0))))
          else Inl e)"

text \<open>
  Test doubles: a framework whose loss is 1, whose gradient is 1 and whose update
  subtracts the gradient; one whose forward computation raises \<^verbatim>\<open>RuntimeError\<close>; one
  whose update raises \<^verbatim>\<open>RuntimeError\<close> after it has lowered the parameter by one; and a
  batch with one example.
\<close>

definition sgd_ops :: "(int, int, int list, int list) backend_ops" where
  "sgd_ops = \<lparr> op_forward = (\<lambda>p xs ys is_eval. Inr (Finite 1)),
               op_backward = (\<lambda>p xs ys. Inr 1),
               op_clip_grad_norm = (\<lambda>c g. g),
               op_step = (\<lambda>p g. Inr (p - g)) \<rparr>"

definition failing_ops :: "(int, int, int list, int list) backend_ops" where
  "failing_ops = \<lparr> op_forward = (\<lambda>p xs ys is_eval. Inl RuntimeError),
               op_backward = (\<lambda>p xs ys. Inr 1),
               op_clip_grad_norm = (\<lambda>c g. g),
               op_step = (\<lambda>p g. Inr (p - g)) \<rparr>"

definition partial_ops :: "(int, int, int list, int list) backend_ops" where
  "partial_ops = \<lparr> op_forward = (\<lambda>p xs ys is_eval. Inr (Finite 1)),
               op_backward = (\<lambda>p xs ys. Inr 1),
               op_clip_grad_norm = (\<lambda>c g. g),
               op_step = (\<lambda>p g. Inl (RuntimeError, p - 1)) \<rparr>"

definition batch1 :: "(int list, int list) batch" where
  "batch1 = \<lparr> batch_xs = [[1, 2]], batch_ys = [[3]], batch_utt_ids = [''spk-0-1''] \<rparr>"

section \<open>The evaluation driver: \<^verbatim>\<open>eval_char\<close>\<close>





















section \<open>Properties of greedy decoding\<close>

lemma greedy_length: "length (greedy rnn h y n) = n"
  by (induction n arbitrary: h y) auto

lemma count_fold:
  "k \<le> B \<Longrightarrow> length fl = B \<Longrightarrow> length ls = B \<Longrightarrow>
   length (fst (fold (count_step eos y_in) [0..<k] (fl, ls))) = B \<and>
   length (snd (fold (count_step eos y_in) [0..<k] (fl, ls))) = B \<and>
   (\<forall>b<B. fst (fold (count_step eos y_in) [0..<k] (fl, ls)) ! b =
            (if b < k then fl ! b \<or> y_in ! b = eos else fl ! b)) \<and>
   (\<forall>b<B. snd (fold (count_step eos y_in) [0..<k] (fl, ls)) ! b =
            (if b < k \<and> \<not> fl ! b then ls ! b + 1 else ls ! b))"
proof (induction k)
  case 0
  then show ?case by simp
next
  case (Suc k)
  obtain fl' ls' where r: "fold (count_step eos y_in) [0..<k] (fl, ls) = (fl', ls')"
    by (cases "fold (count_step eos y_in) [0..<k] (fl, ls)")
  from Suc have kB: "k < B" by simp
  from Suc r have ih: "length fl' = B" "length ls' = B"
    "\<forall>b<B. fl' ! b = (if b < k then fl ! b \<or> y_in ! b = eos else fl ! b)"
    "\<forall>b<B. ls' ! b = (if b < k \<and> \<not> fl ! b then ls ! b + 1 else ls ! b)"
    by auto
  have step: "fold (count_step eos y_in) [0..<Suc k] (fl, ls) = count_step eos y_in k (fl', ls')"
    by (simp add: r)
  show ?case unfolding step using ih kB
    by (auto simp: count_step_def nth_list_update less_Suc_eq)
qed

lemma count_lengths_nth:
  assumes "length fl = B" "length ls = B"
  shows "length (fst (count_lengths eos y_in B (fl, ls))) = B"
    and "length (snd (count_lengths eos y_in B (fl, ls))) = B"
    and "b < B \<Longrightarrow> fst (count_lengths eos y_in B (fl, ls)) ! b = (fl ! b \<or> y_in ! b = eos)"
    and "b < B \<Longrightarrow> snd (count_lengths eos y_in B (fl, ls)) ! b = (if fl ! b then ls ! b else ls ! b + 1)"
  using count_fold[of B B fl ls eos y_in] assms by (auto simp: count_lengths_def)

lemma all_flags_iff: "(length (filter (\<lambda>f. f) fl) = length fl) = (\<forall>b<length fl. fl ! b)"
proof (induction fl)
  case Nil
  then show ?case by simp
next
  case (Cons f fl)
  have le: "length (filter (\<lambda>f. f) fl) \<le> length fl" by (rule length_filter_le)
  show ?case
  proof (cases f)
    case True
    with Cons show ?thesis by (auto simp: nth_Cons split: nat.splits)
  next
    case False
    have "length (filter (\<lambda>f. f) (f # fl)) \<noteq> length (f # fl)"
      using le False by (simp del: length_filter_le)
    moreover have "\<not> (\<forall>b<length (f # fl). (f # fl) ! b)"
      using False by auto
    ultimately show ?thesis by blast
  qed
qed

lemma decode_loop_inv:
  assumes "length y_in = B" "length h = B" "length fl = B" "length ls = B"
  shows "\<exists>m. m \<le> n \<and> (0 < n \<longrightarrow> 0 < m) \<and>
           length (fst (decode_loop rnn eos B n y_in h best fl ls)) = length best + m \<and>
           length (snd (decode_loop rnn eos B n y_in h best fl ls)) = B \<and>
           (\<forall>b<B. row_of b (fst (decode_loop rnn eos B n y_in h best fl ls)) =
                    row_of b best @ greedy rnn (h ! b) (y_in ! b) m) \<and>
           (\<forall>b<B. snd (decode_loop rnn eos B n y_in h best fl ls) ! b =
                    ls ! b + (if fl ! b then 0
                              else min (first_eos eos (greedy rnn (h ! b) (y_in ! b) m) + 1) m)) \<and>
           (m = n \<or> (\<forall>b<B. fl ! b \<or> eos \<in> set (greedy rnn (h ! b) (y_in ! b) m)))"
  using assms
proof (induction n arbitrary: y_in h best fl ls)
  case 0
  then show ?case by (simp add: row_of_def)
next
  case (Suc n)
  define out where "out = map2 rnn h y_in"
  define y_in' where "y_in' = map fst out"
  define h' where "h' = map (\<lambda>r. Some (snd r)) out"
  define st where "st = count_lengths eos y_in' B (fl, ls)"
  have lens: "length y_in' = B" "length h' = B"
    using Suc.prems by (simp_all add: y_in'_def h'_def out_def)
  have y': "\<And>b. b < B \<Longrightarrow> y_in' ! b = fst (rnn (h ! b) (y_in ! b))"
    using Suc.prems by (simp add: y_in'_def out_def)
  have hh: "\<And>b. b < B \<Longrightarrow> h' ! b = Some (snd (rnn (h ! b) (y_in ! b)))"
    using Suc.prems by (simp add: h'_def out_def)
  have stl: "length (fst st) = B" "length (snd st) = B"
    using count_lengths_nth(1,2)[OF Suc.prems(3,4)] by (simp_all add: st_def)
  have stf: "\<And>b. b < B \<Longrightarrow> fst st ! b = (fl ! b \<or> y_in' ! b = eos)"
    using count_lengths_nth(3)[OF Suc.prems(3,4)] by (simp add: st_def)
  have sts: "\<And>b. b < B \<Longrightarrow> snd st ! b = (if fl ! b then ls ! b else ls ! b + 1)"
    using count_lengths_nth(4)[OF Suc.prems(3,4)] by (simp add: st_def)
  have unf: "decode_loop rnn eos B (Suc n) y_in h best fl ls =
      (if length (filter (\<lambda>f. f) (fst st)) = B then (best @ [y_in'], snd st)
       else decode_loop rnn eos B n y_in' h' (best @ [y_in']) (fst st) (snd st))"
    by (simp add: Let_def out_def y_in'_def h'_def st_def)
  show ?case
  proof (cases "length (filter (\<lambda>f. f) (fst st)) = B")
    case True
    then have allf: "\<forall>b<B. fst st ! b" using all_flags_iff[of "fst st"] stl by simp
    have res: "decode_loop rnn eos B (Suc n) y_in h best fl ls = (best @ [y_in'], snd st)"
      by (subst unf) (simp add: True)
    have "1 \<le> Suc n \<and> (0 < Suc n \<longrightarrow> 0 < (1::nat)) \<and>
           length (fst (decode_loop rnn eos B (Suc n) y_in h best fl ls)) = length best + 1 \<and>
           length (snd (decode_loop rnn eos B (Suc n) y_in h best fl ls)) = B \<and>
           (\<forall>b<B. row_of b (fst (decode_loop rnn eos B (Suc n) y_in h best fl ls)) =
                    row_of b best @ greedy rnn (h ! b) (y_in ! b) 1) \<and>
           (\<forall>b<B. snd (decode_loop rnn eos B (Suc n) y_in h best fl ls) ! b =
                    ls ! b + (if fl ! b then 0
                              else min (first_eos eos (greedy rnn (h ! b) (y_in ! b) 1) + 1) 1)) \<and>
           (1 = Suc n \<or> (\<forall>b<B. fl ! b \<or> eos \<in> set (greedy rnn (h ! b) (y_in ! b) 1)))"
      unfolding res using stl sts y' allf stf by (auto simp: row_of_def first_eos_def)
    then show ?thesis by blast
  next
    case False
    have res: "decode_loop rnn eos B (Suc n) y_in h best fl ls =
        decode_loop rnn eos B n y_in' h' (best @ [y_in']) (fst st) (snd st)"
      by (subst unf) (simp add: False)
    from Suc.IH[OF lens stl, of "best @ [y_in']"] obtain m where m: "m \<le> n" "0 < n \<longrightarrow> 0 < m"
      "length (fst (decode_loop rnn eos B n y_in' h' (best @ [y_in']) (fst st) (snd st))) = length (best @ [y_in']) + m"
      "length (snd (decode_loop rnn eos B n y_in' h' (best @ [y_in']) (fst st) (snd st))) = B"
      "\<forall>b<B. row_of b (fst (decode_loop rnn eos B n y_in' h' (best @ [y_in']) (fst st) (snd st))) =
                    row_of b (best @ [y_in']) @ greedy rnn (h' ! b) (y_in' ! b) m"
      "\<forall>b<B. snd (decode_loop rnn eos B n y_in' h' (best @ [y_in']) (fst st) (snd st)) ! b =
                    snd st ! b + (if fst st ! b then 0
                              else min (first_eos eos (greedy rnn (h' ! b) (y_in' ! b) m) + 1) m)"
      "m = n \<or> (\<forall>b<B. fst st ! b \<or> eos \<in> set (greedy rnn (h' ! b) (y_in' ! b) m))"
      by blast
    have g: "\<And>b. b < B \<Longrightarrow> greedy rnn (h ! b) (y_in ! b) (Suc m) = y_in' ! b # greedy rnn (h' ! b) (y_in' ! b) m"
      by (simp add: y' hh)
    have c1: "Suc m \<le> Suc n" using m(1) by simp
    have c3: "length (fst (decode_loop rnn eos B (Suc n) y_in h best fl ls)) = length best + Suc m"
      unfolding res using m(3) by simp
    have c4: "length (snd (decode_loop rnn eos B (Suc n) y_in h best fl ls)) = B"
      unfolding res using m(4) by simp
    have c5: "\<forall>b<B. row_of b (fst (decode_loop rnn eos B (Suc n) y_in h best fl ls)) =
                    row_of b best @ greedy rnn (h ! b) (y_in ! b) (Suc m)"
    proof (intro allI impI)
      fix b assume b: "b < B"
      have "row_of b (best @ [y_in']) = row_of b best @ [y_in' ! b]"
        by (simp add: row_of_def)
      with m(5) b show "row_of b (fst (decode_loop rnn eos B (Suc n) y_in h best fl ls)) =
                    row_of b best @ greedy rnn (h ! b) (y_in ! b) (Suc m)"
        unfolding res g[OF b] by simp
    qed
    have c6: "\<forall>b<B. snd (decode_loop rnn eos B (Suc n) y_in h best fl ls) ! b =
                    ls ! b + (if fl ! b then 0
                              else min (first_eos eos (greedy rnn (h ! b) (y_in ! b) (Suc m)) + 1) (Suc m))"
    proof (intro allI impI)
      fix b assume b: "b < B"
      show "snd (decode_loop rnn eos B (Suc n) y_in h best fl ls) ! b =
                    ls ! b + (if fl ! b then 0
                              else min (first_eos eos (greedy rnn (h ! b) (y_in ! b) (Suc m)) + 1) (Suc m))"
        using m(6) b stf[OF b] sts[OF b] unfolding g[OF b] res
        by (auto simp: first_eos_def)
    qed
    have c7: "Suc m = Suc n \<or> (\<forall>b<B. fl ! b \<or> eos \<in> set (greedy rnn (h ! b) (y_in ! b) (Suc m)))"
    proof (cases "m = n")
      case True
      then show ?thesis by simp
    next
      case False
      with m(7) have a: "\<forall>b<B. fst st ! b \<or> eos \<in> set (greedy rnn (h' ! b) (y_in' ! b) m)"
        by simp
      have "\<forall>b<B. fl ! b \<or> eos \<in> set (greedy rnn (h ! b) (y_in ! b) (Suc m))"
      proof (intro allI impI)
        fix b assume b: "b < B"
        from a b stf[OF b] show "fl ! b \<or> eos \<in> set (greedy rnn (h ! b) (y_in ! b) (Suc m))"
          unfolding g[OF b] by auto
      qed
      then show ?thesis by simp
    qed
    from c1 c3 c4 c5 c6 c7 show ?thesis by blast
  qed
qed

lemma greedy_take: "m \<le> n \<Longrightarrow> take m (greedy rnn h y n) = greedy rnn h y m"
proof (induction n arbitrary: m h y)
  case 0
  then show ?case by simp
next
  case (Suc n)
  then show ?case by (cases m) simp_all
qed

lemma row_of_nil: "row_of b [] = []"
  by (simp add: row_of_def)

lemma fold_max_ones: "fold max (map (\<lambda>y. Suc 0) xs) m = (if xs = [] then m else max (Suc 0) m)"
  by (induction xs arbitrary: m) (auto simp: max_def)

lemma pad_list_singletons: "map (\<lambda>row. row ! 0) (pad_list (map (\<lambda>y. [y]) xs) v) = xs"
  by (simp add: pad_list_def fold_max_ones comp_def)

lemma decode_char:
  assumes n: "1 \<le> max_decode_len"
  shows "\<exists>m hyps. 1 \<le> m \<and> m \<le> nat max_decode_len \<and>
           decode rnn eos start_tokens max_decode_len = Inr hyps \<and>
           length hyps = length start_tokens \<and>
           (\<forall>b<length start_tokens. hyps ! b =
              take (1 + min (first_eos eos (greedy rnn None (start_tokens ! b) m) + 1) m)
                   (greedy rnn None (start_tokens ! b) m)) \<and>
           (m = nat max_decode_len \<or>
            (\<forall>b<length start_tokens. eos \<in> set (greedy rnn None (start_tokens ! b) m)))"
proof -
  let ?B = "length start_tokens"
  let ?r = "decode_loop rnn eos ?B (nat max_decode_len) start_tokens
                (replicate ?B None) [] (replicate ?B False) (replicate ?B 1)"
  have pos: "0 < nat max_decode_len" using n by simp
  from decode_loop_inv[of start_tokens ?B "replicate ?B None" "replicate ?B False" "replicate ?B 1"
         "nat max_decode_len" rnn eos "[]"]
  obtain m where m: "m \<le> nat max_decode_len" "0 < m" "length (fst ?r) = m" "length (snd ?r) = ?B"
    "\<forall>b<?B. row_of b (fst ?r) = greedy rnn None (start_tokens ! b) m"
    "\<forall>b<?B. snd ?r ! b = 1 + min (first_eos eos (greedy rnn None (start_tokens ! b) m) + 1) m"
    "m = nat max_decode_len \<or> (\<forall>b<?B. eos \<in> set (greedy rnn None (start_tokens ! b) m))"
    using pos by (auto simp: row_of_nil)
  have ne: "fst ?r \<noteq> []" using m(2,3) by auto
  let ?hyps = "map (\<lambda>b. take (snd ?r ! b) (row_of b (fst ?r))) [0..<?B]"
  have d: "decode rnn eos start_tokens max_decode_len = Inr ?hyps"
    unfolding decode_def Let_def row_of_def pad_list_singletons using ne by simp
  have h: "\<forall>b<?B. ?hyps ! b =
              take (1 + min (first_eos eos (greedy rnn None (start_tokens ! b) m) + 1) m)
                   (greedy rnn None (start_tokens ! b) m)"
    using m(5,6) by simp
  have l: "length ?hyps = ?B" by simp
  have m1: "1 \<le> m" using m(2) by simp
  from m1 m(1) d l h m(7) show ?thesis by blast
qed

text \<open>
  Claim C5.  For every call with \<open>max_decode_len \<ge> 1\<close> and every example \<open>b\<close> of the
  batch, \<^verbatim>\<open>decode\<close> returns normally, the hypothesis of \<open>b\<close> is at most
  \<open>max_decode_len\<close> tokens long, and an example whose greedy tokens contain no
  end-of-sequence token within \<open>max_decode_len\<close> steps gets exactly those
  \<open>max_decode_len\<close> tokens: nothing is cut off and no end-of-sequence token is added.
\<close>

theorem decode_length_bound:
  assumes "1 \<le> max_decode_len" and "b < length start_tokens"
  shows "\<exists>hyps. decode rnn eos start_tokens max_decode_len = Inr hyps \<and>
           length hyps = length start_tokens \<and>
           int (length (hyps ! b)) \<le> max_decode_len \<and>
           (eos \<notin> set (greedy rnn None (start_tokens ! b) (nat max_decode_len)) \<longrightarrow>
              hyps ! b = greedy rnn None (start_tokens ! b) (nat max_decode_len) \<and>
              int (length (hyps ! b)) = max_decode_len \<and> eos \<notin> set (hyps ! b))"
proof -
  from decode_char[OF assms(1), of rnn eos start_tokens] obtain m hyps where
    m: "1 \<le> m" "m \<le> nat max_decode_len"
       "decode rnn eos start_tokens max_decode_len = Inr hyps"
       "length hyps = length start_tokens"
       "\<forall>b<length start_tokens. hyps ! b =
              take (1 + min (first_eos eos (greedy rnn None (start_tokens ! b) m) + 1) m)
                   (greedy rnn None (start_tokens ! b) m)"
       "m = nat max_decode_len \<or>
            (\<forall>b<length start_tokens. eos \<in> set (greedy rnn None (start_tokens ! b) m))"
    by blast
  have hb: "hyps ! b = take (1 + min (first_eos eos (greedy rnn None (start_tokens ! b) m) + 1) m)
                   (greedy rnn None (start_tokens ! b) m)"
    using m(5) assms(2) by simp
  have len: "length (hyps ! b) \<le> m" by (simp add: hb greedy_length)
  then have c1: "int (length (hyps ! b)) \<le> max_decode_len" using m(2) assms(1) by linarith
  have c2: "hyps ! b = greedy rnn None (start_tokens ! b) (nat max_decode_len) \<and>
              int (length (hyps ! b)) = max_decode_len \<and> eos \<notin> set (hyps ! b)"
    if no: "eos \<notin> set (greedy rnn None (start_tokens ! b) (nat max_decode_len))"
  proof -
    have "eos \<notin> set (greedy rnn None (start_tokens ! b) m)"
      using no greedy_take[OF m(2), of rnn None "start_tokens ! b"] by (metis in_set_takeD)
    with m(6) assms(2) have mn: "m = nat max_decode_len" by blast
    have fe: "first_eos eos (greedy rnn None (start_tokens ! b) m) = m"
      using no unfolding mn first_eos_def
      by (metis (mono_tags, lifting) greedy_length takeWhile_eq_all_conv)
    have "hyps ! b = greedy rnn None (start_tokens ! b) m"
      unfolding hb fe by (simp add: greedy_length)
    with no mn assms(1) show ?thesis by (simp add: greedy_length)
  qed
  from m(3,4) c1 c2 show ?thesis by blast
qed

theorem decode_length_bound_witness:
  "(1::int) \<le> 3 \<and> (0::nat) < length [5::int, 1] \<and>
   (\<exists>hyps. decode never_eos 5 [5, 1] 3 = Inr hyps \<and> length hyps = 2 \<and>
            hyps ! 0 = [4, 4, 4] \<and> int (length (hyps ! 0)) = 3 \<and> 5 \<notin> set (hyps ! 0))"
proof -
  have h1: "(1::int) \<le> 3" by simp
  have h2: "(0::nat) < length [5::int, 1]" by simp
  have g: "greedy never_eos None ([5::int, 1] ! 0) (nat 3) = [4, 4, 4]" by code_simp
  then have h3: "5 \<notin> set (greedy never_eos None ([5::int, 1] ! 0) (nat 3))" by simp
  from decode_length_bound[OF h1 h2, of never_eos 5] h3 g h1 h2 show ?thesis
    by auto
qed

lemma decode_no_steps:
  assumes "max_decode_len < 1"
  shows "decode rnn eos start_tokens max_decode_len = Inl RuntimeError"
proof -
  have "nat max_decode_len = 0" using assms by simp
  then show ?thesis by (simp add: decode_def Let_def)
qed

lemma decode_loop_minimal:
  assumes "length y_in = B" "length h = B" "length fl = B" "length ls = B"
  shows "\<forall>j. 1 \<le> j \<and> j < length (fst (decode_loop rnn eos B n y_in h best fl ls)) - length best \<longrightarrow>
           (\<exists>b<B. \<not> fl ! b \<and> eos \<notin> set (greedy rnn (h ! b) (y_in ! b) j))"
  using assms
proof (induction n arbitrary: y_in h best fl ls)
  case 0
  then show ?case by simp
next
  case (Suc n)
  define out where "out = map2 rnn h y_in"
  define y_in' where "y_in' = map fst out"
  define h' where "h' = map (\<lambda>r. Some (snd r)) out"
  define st where "st = count_lengths eos y_in' B (fl, ls)"
  have lens: "length y_in' = B" "length h' = B"
    using Suc.prems by (simp_all add: y_in'_def h'_def out_def)
  have y': "\<And>b. b < B \<Longrightarrow> y_in' ! b = fst (rnn (h ! b) (y_in ! b))"
    using Suc.prems by (simp add: y_in'_def out_def)
  have hh: "\<And>b. b < B \<Longrightarrow> h' ! b = Some (snd (rnn (h ! b) (y_in ! b)))"
    using Suc.prems by (simp add: h'_def out_def)
  have stl: "length (fst st) = B" "length (snd st) = B"
    using count_lengths_nth(1,2)[OF Suc.prems(3,4)] by (simp_all add: st_def)
  have stf: "\<And>b. b < B \<Longrightarrow> fst st ! b = (fl ! b \<or> y_in' ! b = eos)"
    using count_lengths_nth(3)[OF Suc.prems(3,4)] by (simp add: st_def)
  have unf: "decode_loop rnn eos B (Suc n) y_in h best fl ls =
      (if length (filter (\<lambda>f. f) (fst st)) = B then (best @ [y_in'], snd st)
       else decode_loop rnn eos B n y_in' h' (best @ [y_in']) (fst st) (snd st))"
    by (simp add: Let_def out_def y_in'_def h'_def st_def)
  have g: "\<And>b j. b < B \<Longrightarrow> greedy rnn (h ! b) (y_in ! b) (Suc j) = y_in' ! b # greedy rnn (h' ! b) (y_in' ! b) j"
    by (simp add: y' hh)
  show ?case
  proof (cases "length (filter (\<lambda>f. f) (fst st)) = B")
    case True
    have res: "decode_loop rnn eos B (Suc n) y_in h best fl ls = (best @ [y_in'], snd st)"
      by (subst unf) (simp add: True)
    show ?thesis unfolding res by simp
  next
    case False
    have res: "decode_loop rnn eos B (Suc n) y_in h best fl ls =
        decode_loop rnn eos B n y_in' h' (best @ [y_in']) (fst st) (snd st)"
      by (subst unf) (simp add: False)
    let ?r = "decode_loop rnn eos B n y_in' h' (best @ [y_in']) (fst st) (snd st)"
    from False have "\<not> (\<forall>b<B. fst st ! b)" using all_flags_iff[of "fst st"] stl by simp
    then obtain b0 where b0: "b0 < B" "\<not> fst st ! b0" by blast
    have ih: "\<forall>j. 1 \<le> j \<and> j < length (fst ?r) - length (best @ [y_in']) \<longrightarrow>
           (\<exists>b<B. \<not> fst st ! b \<and> eos \<notin> set (greedy rnn (h' ! b) (y_in' ! b) j))"
      by (rule Suc.IH[OF lens stl])
    show ?thesis unfolding res
    proof (intro allI impI)
      fix j assume j: "1 \<le> j \<and> j < length (fst ?r) - length best"
      show "\<exists>b<B. \<not> fl ! b \<and> eos \<notin> set (greedy rnn (h ! b) (y_in ! b) j)"
      proof (cases j)
        case 0
        with j show ?thesis by simp
      next
        case (Suc j')
        show ?thesis
        proof (cases "j' = 0")
          case True
          from b0 stf[OF b0(1)] have "\<not> fl ! b0" "y_in' ! b0 \<noteq> eos" by auto
          then have "\<not> fl ! b0 \<and> eos \<notin> set (greedy rnn (h ! b0) (y_in ! b0) j)"
            unfolding Suc True g[OF b0(1)] by auto
          with b0(1) show ?thesis by blast
        next
          case False
          then have "1 \<le> j' \<and> j' < length (fst ?r) - length (best @ [y_in'])"
            using j Suc by simp
          with ih obtain b where b: "b < B" "\<not> fst st ! b"
            "eos \<notin> set (greedy rnn (h' ! b) (y_in' ! b) j')" by blast
          from b(2) stf[OF b(1)] have "\<not> fl ! b" "y_in' ! b \<noteq> eos" by auto
          with b(3) have "\<not> fl ! b \<and> eos \<notin> set (greedy rnn (h ! b) (y_in ! b) j)"
            unfolding Suc g[OF b(1)] by auto
          with b(1) show ?thesis by blast
        qed
      qed
    qed
  qed
qed

lemma decode_exact:
  assumes d: "decode rnn eos start_tokens max_decode_len = Inr hyps"
  shows "length hyps = length start_tokens \<and>
     (\<exists>m. 1 \<le> m \<and> m \<le> nat max_decode_len \<and>
        (m = nat max_decode_len \<or>
         (\<forall>b<length start_tokens. eos \<in> set (greedy rnn None (start_tokens ! b) m))) \<and>
        (\<forall>j. 1 \<le> j \<and> j < m \<longrightarrow>
           (\<exists>b<length start_tokens. eos \<notin> set (greedy rnn None (start_tokens ! b) j))) \<and>
        (\<forall>b<length start_tokens. hyps ! b =
           greedy rnn None (start_tokens ! b)
             (min (first_eos eos (greedy rnn None (start_tokens ! b) m) + 2) m)))"
proof -
  let ?B = "length start_tokens"
  let ?r = "decode_loop rnn eos ?B (nat max_decode_len) start_tokens
                (replicate ?B None) [] (replicate ?B False) (replicate ?B 1)"
  have ne: "fst ?r \<noteq> []" and hy: "hyps = map (\<lambda>b. take (snd ?r ! b) (row_of b (fst ?r))) [0..<?B]"
    using d unfolding decode_def Let_def row_of_def pad_list_singletons
    by (auto split: if_splits)
  from decode_loop_inv[of start_tokens ?B "replicate ?B None" "replicate ?B False" "replicate ?B 1"
         "nat max_decode_len" rnn eos "[]"]
  obtain m where m: "m \<le> nat max_decode_len" "length (fst ?r) = m"
    "\<forall>b<?B. row_of b (fst ?r) = greedy rnn None (start_tokens ! b) m"
    "\<forall>b<?B. snd ?r ! b = 1 + min (first_eos eos (greedy rnn None (start_tokens ! b) m) + 1) m"
    "m = nat max_decode_len \<or> (\<forall>b<?B. eos \<in> set (greedy rnn None (start_tokens ! b) m))"
    by (auto simp: row_of_nil)
  have m1: "1 \<le> m" using ne m(2) by (cases m) auto
  from decode_loop_minimal[of start_tokens ?B "replicate ?B None" "replicate ?B False" "replicate ?B 1"
         rnn eos "nat max_decode_len" "[]"]
  have mini0: "\<forall>j. 1 \<le> j \<and> j < length (fst ?r) - length ([]::int list list) \<longrightarrow>
           (\<exists>b<?B. \<not> replicate ?B False ! b \<and>
                   eos \<notin> set (greedy rnn (replicate ?B None ! b) (start_tokens ! b) j))"
    by simp
  have mini: "\<forall>j. 1 \<le> j \<and> j < m \<longrightarrow>
           (\<exists>b<?B. eos \<notin> set (greedy rnn None (start_tokens ! b) j))"
  proof (intro allI impI)
    fix j assume j: "1 \<le> j \<and> j < m"
    with mini0 m(2) obtain b where "b < ?B"
      "eos \<notin> set (greedy rnn (replicate ?B None ! b) (start_tokens ! b) j)"
      by auto
    then show "\<exists>b<?B. eos \<notin> set (greedy rnn None (start_tokens ! b) j)"
      by (intro exI[of _ b]) simp
  qed
  have rows: "hyps ! b = greedy rnn None (start_tokens ! b)
             (min (first_eos eos (greedy rnn None (start_tokens ! b) m) + 2) m)"
    if b: "b < ?B" for b
  proof -
    let ?g = "greedy rnn None (start_tokens ! b) m"
    have "hyps ! b = take (1 + min (first_eos eos ?g + 1) m) ?g"
      using b m(3,4) by (simp add: hy)
    also have "\<dots> = take (min (first_eos eos ?g + 2) m) (take m ?g)"
      by (simp add: greedy_length min_def)
    also have "\<dots> = take (min (first_eos eos ?g + 2) m) ?g"
      by (simp add: greedy_length)
    also have "\<dots> = greedy rnn None (start_tokens ! b) (min (first_eos eos ?g + 2) m)"
      by (rule greedy_take) simp
    finally show ?thesis .
  qed
  have "length hyps = ?B" by (simp add: hy)
  with m1 m(1,5) mini rows show ?thesis by blast
qed


text \<open>
  Claim C9.  \<^verbatim>\<open>decode\<close> keeps the order of the batch.  Whatever list it returns has one
  hypothesis per start token, and the hypothesis at index \<open>b\<close> is exactly the first
  \<open>min (f + 2) m\<close> tokens of the greedy token stream that starts from
  \<open>start_tokens ! b\<close>, where \<open>f\<close> is the index of that stream's first end-of-sequence
  token and \<open>m \<ge> 1\<close> is the number of steps run: the first step count at which every
  example has chosen the end-of-sequence token, or \<open>max_decode_len\<close>.  No permutation of
  the batch occurs anywhere in the function.  It does return for every non-empty batch
  when at least one step is allowed (with no step, \<^verbatim>\<open>torch.cat\<close> of the empty list
  raises).
\<close>

theorem decode_preserves_batch_order:
  "(\<forall>hyps. decode rnn eos start_tokens max_decode_len = Inr hyps \<longrightarrow>
      length hyps = length start_tokens \<and>
      (\<exists>m. 1 \<le> m \<and> m \<le> nat max_decode_len \<and>
         (m = nat max_decode_len \<or>
          (\<forall>b<length start_tokens. eos \<in> set (greedy rnn None (start_tokens ! b) m))) \<and>
         (\<forall>j. 1 \<le> j \<and> j < m \<longrightarrow>
            (\<exists>b<length start_tokens. eos \<notin> set (greedy rnn None (start_tokens ! b) j))) \<and>
         (\<forall>b<length start_tokens. hyps ! b =
            greedy rnn None (start_tokens ! b)
              (min (first_eos eos (greedy rnn None (start_tokens ! b) m) + 2) m)))) \<and>
   (1 \<le> max_decode_len \<and> start_tokens \<noteq> [] \<longrightarrow>
      (\<exists>hyps. decode rnn eos start_tokens max_decode_len = Inr hyps))"
proof -
  have t: "\<exists>hyps. decode rnn eos start_tokens max_decode_len = Inr hyps"
    if "1 \<le> max_decode_len"
    using decode_char[OF that, of rnn eos start_tokens] by blast
  from decode_exact[of rnn eos start_tokens max_decode_len] t show ?thesis by blast
qed

theorem decode_preserves_batch_order_witness:
  "\<exists>hyps. decode stub_rnn 5 [0, 1] 3 = Inr hyps \<and> length hyps = 2 \<and>
     (\<exists>m. 1 \<le> m \<and> m \<le> 3 \<and>
        hyps ! 1 = greedy stub_rnn None 1 (min (first_eos 5 (greedy stub_rnn None 1 m) + 2) m)) \<and>
     hyps = [[5, 3], [2, 5]]"
proof -
  have h: "(1::int) \<le> 3 \<and> [0::int, 1] \<noteq> []" by simp
  from decode_preserves_batch_order[of stub_rnn 5 "[0, 1]" 3] h
  obtain hyps where d: "decode stub_rnn 5 [0, 1] 3 = Inr hyps" by blast
  with decode_preserves_batch_order[of stub_rnn 5 "[0, 1]" 3]
  obtain m where m: "length hyps = length [0::int, 1]" "1 \<le> m" "m \<le> nat 3"
    "\<forall>b<length [0::int, 1]. hyps ! b =
            greedy stub_rnn None ([0, 1] ! b)
              (min (first_eos 5 (greedy stub_rnn None ([0, 1] ! b) m) + 2) m)"
    by blast
  from m(4) have "1 < length [0::int, 1] \<longrightarrow> hyps ! 1 =
            greedy stub_rnn None ([0, 1] ! 1)
              (min (first_eos 5 (greedy stub_rnn None ([0, 1] ! 1) m) + 2) m)"
    by blast
  then have r: "hyps ! 1 = greedy stub_rnn None 1 (min (first_eos 5 (greedy stub_rnn None 1 m) + 2) m)"
    by simp
  have e: "decode stub_rnn 5 [0, 1] 3 = Inr [[5, 3], [2, 5]]" by code_simp
  with d have "hyps = [[5, 3], [2, 5]]" by simp
  with d m(1,2,3) r show ?thesis by auto
qed

text \<open>
  Claim C2 (the code departs from it).  With \<open>stub_rnn\<close> and end-of-sequence id 5, the
  example started from token 0 chooses the end-of-sequence token at step 1, the example
  started from token 1 at step 2.  Since \<^verbatim>\<open>y_lens\<close> starts at 1 and is incremented once
  more at the step that chooses the end-of-sequence token, the slice kept for the first
  example is two tokens long and ends with the token chosen after the end of the
  sequence.
\<close>

theorem decode_eos_overrun:
  "greedy stub_rnn None 0 3 = [5, 3, 5] \<and> decode stub_rnn 5 [0, 1] 3 = Inr [[5, 3], [2, 5]]"
  by code_simp

text \<open>
  Claim C6 (the code departs from it).  On the scenario of the specification (start
  token 5, a network that always chooses 5, at most 3 steps) the loop records the length
  \<^verbatim>\<open>y_lens = [2]\<close>, and \<^verbatim>\<open>decode\<close> returns the list of hypotheses \<open>[[5]]\<close> alone: the
  recorded lengths are used for the slices and then dropped, although the docstring of
  the function announces two return values.
\<close>

theorem decode_returns_list_only:
  "decode always_eos 5 [5] 3 = Inr [[5]] \<and>
   decode_loop always_eos 5 1 3 [5] [None] [] [False] [1] = ([[5]], [2])"
  by code_simp

section \<open>Properties of the batch preparation and the training loss\<close>

lemma sorted_reverse_length: "length (sorted_reverse key xs) = length xs"
  by (simp add: sorted_reverse_def)

lemma sorted_reverse_set: "set (sorted_reverse key xs) = set xs"
  by (simp add: sorted_reverse_def)

lemma sorted_reverse_distinct: "distinct (sorted_reverse key xs) = distinct xs"
  by (simp add: sorted_reverse_def)

lemma sorted_reverse_descending:
  assumes "i \<le> j" "j < length xs"
  shows "key (sorted_reverse key xs ! j) \<le> key (sorted_reverse key xs ! i)"
proof -
  let ?p = "sorted_reverse key xs"
  have "sorted (map key (sort_key key (rev xs)))" by simp
  then have "sorted (rev (map key ?p))" by (simp add: sorted_reverse_def rev_map)
  from sorted_rev_nth_mono[OF this assms(1)] assms(2)
  have "map key ?p ! j \<le> map key ?p ! i" by (simp add: sorted_reverse_length)
  with assms show ?thesis by (simp add: sorted_reverse_length)
qed

lemma sorted_reverse_stable:
  "filter (\<lambda>y. key y = k) (sorted_reverse key xs) = filter (\<lambda>y. key y = k) xs"
proof -
  have "filter (\<lambda>y. key y = k) (sorted_reverse key xs) =
        rev (filter (\<lambda>y. key y = k) (sort_key key (rev xs)))"
    by (simp add: sorted_reverse_def rev_filter)
  also have "\<dots> = rev (filter (\<lambda>y. key y = k) (rev xs))"
    by (simp only: sort_key_stable)
  also have "\<dots> = filter (\<lambda>y. key y = k) xs"
    by (simp add: rev_filter)
  finally show ?thesis .
qed

lemma sorted_reverse_ties:
  assumes "i < j" "j < B" "key (sorted_reverse key [0..<B] ! i) = key (sorted_reverse key [0..<B] ! j)"
  shows "sorted_reverse key [0..<B] ! i < sorted_reverse key [0..<B] ! j"
proof -
  let ?p = "sorted_reverse key [0..<B]"
  let ?k = "key (?p ! i)"
  let ?P = "\<lambda>y. key y = ?k"
  have len: "length ?p = B" by (simp add: sorted_reverse_length)
  have i: "i < length ?p" using assms len by simp
  have split: "?p = take i ?p @ ?p ! i # drop (Suc i) ?p"
    by (rule id_take_nth_drop[OF i])
  have "sorted_wrt (<) (filter ?P [0..<B])" by (rule sorted_wrt_filter) simp
  then have "sorted_wrt (<) (filter ?P ?p)" by (simp only: sorted_reverse_stable)
  then have "sorted_wrt (<) (filter ?P (take i ?p @ ?p ! i # drop (Suc i) ?p))"
    using split by simp
  then have a: "\<forall>y\<in>set (filter ?P (drop (Suc i) ?p)). ?p ! i < y"
    by (simp add: sorted_wrt_append)
  have "drop (Suc i) ?p ! (j - Suc i) = ?p ! j" using assms len by simp
  moreover have "j - Suc i < length (drop (Suc i) ?p)" using assms len by simp
  ultimately have "?p ! j \<in> set (drop (Suc i) ?p)" by (metis nth_mem)
  with a assms(3) show ?thesis by simp
qed

lemma fold_max_first: "\<forall>x\<in>set xs. x \<le> a \<Longrightarrow> fold max xs (a::nat) = a"
  by (induction xs) (simp_all add: max_absorb2)

lemma pad_list_nth:
  assumes "b < length xs" "\<forall>x\<in>set xs. length x \<le> length (xs ! 0)"
  shows "pad_list xs v ! b = xs ! b @ replicate (length (xs ! 0) - length (xs ! b)) v"
proof -
  obtain r rs where x: "xs = r # rs" using assms(1) by (cases xs) auto
  have "fold max (map length xs) 0 = length r"
    using assms(2) unfolding x by (simp add: fold_max_first)
  then have "pad_list xs v = map (\<lambda>x. x @ replicate (length (xs ! 0) - length x) v) xs"
    by (simp add: pad_list_def x)
  with assms(1) show ?thesis by simp
qed

lemma prepare_batch_rows:
  assumes b: "b < length ys"
  shows "\<exists>perm_idx ys_in ys_out y_lens.
           prepare_batch self ys = Inr (perm_idx, ys_in, ys_out, y_lens) \<and>
           length perm_idx = length ys \<and> set perm_idx = {0..<length ys} \<and> distinct perm_idx \<and>
           length ys_in = length ys \<and> length ys_out = length ys \<and> length y_lens = length ys \<and>
           (\<forall>i j. i < j \<and> j < length ys \<longrightarrow>
              length (ys ! (perm_idx ! j)) \<le> length (ys ! (perm_idx ! i)) \<and>
              (length (ys ! (perm_idx ! i)) = length (ys ! (perm_idx ! j)) \<longrightarrow>
                 perm_idx ! i < perm_idx ! j)) \<and>
           ys_in ! b = (self_sos self # ys ! (perm_idx ! b)) @
              replicate (length (ys ! (perm_idx ! 0)) - length (ys ! (perm_idx ! b))) (self_eos self) \<and>
           ys_out ! b = (ys ! (perm_idx ! b) @ [self_eos self]) @
              replicate (length (ys ! (perm_idx ! 0)) - length (ys ! (perm_idx ! b))) (- 1) \<and>
           y_lens ! b = length (ys ! (perm_idx ! b)) + 1"
proof -
  let ?key = "\<lambda>i. length (ys ! i)"
  let ?B = "length ys"
  define perm_idx where "perm_idx = sorted_reverse ?key [0..<?B]"
  define ys' where "ys' = map (\<lambda>i. ys ! i) perm_idx"
  define rows_in where "rows_in = map (\<lambda>y. self_sos self # y) ys'"
  define rows_out where "rows_out = map (\<lambda>y. y @ [self_eos self]) ys'"
  have len: "length perm_idx = ?B" by (simp add: perm_idx_def sorted_reverse_length)
  have st: "set perm_idx = {0..<?B}" by (simp add: perm_idx_def sorted_reverse_set)
  have di: "distinct perm_idx" by (simp add: perm_idx_def sorted_reverse_distinct)
  have ne: "ys' \<noteq> []" using b len by (auto simp: ys'_def)
  have res: "prepare_batch self ys =
      Inr (perm_idx, pad_list rows_in (self_eos self), pad_list rows_out (- 1),
           map (\<lambda>y. length y + 1) ys')"
    using ne unfolding prepare_batch_def Let_def perm_idx_def[symmetric] ys'_def[symmetric]
      rows_in_def rows_out_def by simp
  have desc: "\<And>i j. i \<le> j \<Longrightarrow> j < ?B \<Longrightarrow> ?key (perm_idx ! j) \<le> ?key (perm_idx ! i)"
    unfolding perm_idx_def using sorted_reverse_descending[of _ _ "[0..<?B]" ?key] by simp
  have ties: "\<And>i j. i < j \<Longrightarrow> j < ?B \<Longrightarrow> ?key (perm_idx ! i) = ?key (perm_idx ! j) \<Longrightarrow>
      perm_idx ! i < perm_idx ! j"
    unfolding perm_idx_def by (rule sorted_reverse_ties)
  have ord: "\<forall>i j. i < j \<and> j < ?B \<longrightarrow>
              ?key (perm_idx ! j) \<le> ?key (perm_idx ! i) \<and>
              (?key (perm_idx ! i) = ?key (perm_idx ! j) \<longrightarrow> perm_idx ! i < perm_idx ! j)"
    using desc ties by (simp add: less_imp_le)
  have first: "\<And>k. k < ?B \<Longrightarrow> ?key (perm_idx ! k) \<le> ?key (perm_idx ! 0)"
    using desc by simp
  have pos: "0 < length perm_idx" using b len by (cases ys) auto
  have r0: "length (rows_in ! 0) = Suc (?key (perm_idx ! 0))"
    "length (rows_out ! 0) = Suc (?key (perm_idx ! 0))"
    using pos by (simp_all add: rows_in_def rows_out_def ys'_def)
  have max_in: "\<forall>x\<in>set rows_in. length x \<le> length (rows_in ! 0)"
    unfolding r0 using first len by (auto simp: rows_in_def ys'_def in_set_conv_nth)
  have max_out: "\<forall>x\<in>set rows_out. length x \<le> length (rows_out ! 0)"
    unfolding r0 using first len by (auto simp: rows_out_def ys'_def in_set_conv_nth)
  have bi: "b < length rows_in" "b < length rows_out"
    using b len by (simp_all add: rows_in_def rows_out_def ys'_def)
  have rin: "pad_list rows_in (self_eos self) ! b = (self_sos self # ys ! (perm_idx ! b)) @
              replicate (?key (perm_idx ! 0) - ?key (perm_idx ! b)) (self_eos self)"
    using pad_list_nth[OF bi(1) max_in] b len unfolding r0 by (simp add: rows_in_def ys'_def)
  have rout: "pad_list rows_out (- 1) ! b = (ys ! (perm_idx ! b) @ [self_eos self]) @
              replicate (?key (perm_idx ! 0) - ?key (perm_idx ! b)) (- 1)"
    using pad_list_nth[OF bi(2) max_out] b len unfolding r0 by (simp add: rows_out_def ys'_def)
  have lens: "map (\<lambda>y. length y + 1) ys' ! b = ?key (perm_idx ! b) + 1"
    using b len by (simp add: ys'_def)
  have l3: "length (pad_list rows_in (self_eos self)) = ?B" "length (pad_list rows_out (- 1)) = ?B"
    "length (map (\<lambda>y. length y + 1) ys') = ?B"
    using len by (simp_all add: pad_list_def rows_in_def rows_out_def ys'_def)
  from res len st di l3 ord rin rout lens show ?thesis by blast
qed

lemma length_concat_rect:
  "\<forall>r\<in>set rows. length r = L \<Longrightarrow> length (concat rows) = length rows * L"
  by (induction rows) simp_all

lemma row_sum:
  assumes "length r = L"
  shows "sum_list (map2 f (map h [0..<L]) r) = (\<Sum>t<L. f (h t) (r ! t))"
proof -
  have "map2 f (map h [0..<L]) r = map (\<lambda>t. f (h t) (r ! t)) [0..<L]"
    using assms by (intro nth_equalityI) simp_all
  then show ?thesis
    by (simp add: interv_sum_list_conv_sum_set_nat atLeast0LessThan)
qed

lemma flat_sum:
  assumes "\<forall>r\<in>set rows. length r = L"
  shows "sum_list (map2 f (concat (map (\<lambda>b. map (g b) [0..<L]) [0..<length rows])) (concat rows)) =
         (\<Sum>b<length rows. \<Sum>t<L. f (g b t) (rows ! b ! t))"
  using assms
proof (induction rows rule: rev_induct)
  case Nil
  then show ?case by simp
next
  case (snoc r rs)
  let ?A = "concat (map (\<lambda>b. map (g b) [0..<L]) [0..<length rs])"
  have rl: "length r = L" and rsl: "\<forall>r\<in>set rs. length r = L" using snoc.prems by simp_all
  have la: "length ?A = length (concat rs)"
    using length_concat_rect[OF rsl]
      length_concat_rect[of "map (\<lambda>b. map (g b) [0..<L]) [0..<length rs]" L] by simp
  have ih: "sum_list (map2 f ?A (concat rs)) = (\<Sum>b<length rs. \<Sum>t<L. f (g b t) (rs ! b ! t))"
    using snoc.IH[OF rsl] .
  have "sum_list (map2 f (concat (map (\<lambda>b. map (g b) [0..<L]) [0..<length (rs @ [r])]))
            (concat (rs @ [r]))) =
        sum_list (map2 f ?A (concat rs)) + sum_list (map2 f (map (g (length rs)) [0..<L]) r)"
    using la by simp
  also have "\<dots> = (\<Sum>b<length rs. \<Sum>t<L. f (g b t) (rs ! b ! t)) +
                   (\<Sum>t<L. f (g (length rs) t) (r ! t))"
    by (simp only: ih row_sum[OF rl])
  also have "\<dots> = (\<Sum>b<length (rs @ [r]). \<Sum>t<L. f (g b t) ((rs @ [r]) ! b ! t))"
    by (simp add: nth_append)
  finally show ?case .
qed

lemma model5_init: "rnnlm_init 2 ''lstm'' False 3 1 5 False = Inr model5"
  by (simp add: rnnlm_init_def bind_err_def model5_def)

text \<open>
  Claim C3.  For every batch and every example \<open>b\<close> of it, the batch preparation of
  \<^verbatim>\<open>forward\<close> succeeds; \<^verbatim>\<open>perm_idx\<close> is a permutation of the batch indices that puts the
  sequences in descending order of their original length, sequences of equal length in
  their input order; row \<open>b\<close> of \<^verbatim>\<open>ys_in\<close> is the start sentinel followed by the \<open>b\<close>-th
  sorted sequence, padded with the end-of-sequence id; row \<open>b\<close> of \<^verbatim>\<open>ys_out\<close> is that
  sequence followed by the end sentinel, padded with the ignore marker \<open>-1\<close>; and the true
  length is the sequence length plus one.  Both rows are padded to the length of the
  longest sequence (the first after sorting) plus one.
\<close>

theorem prepare_batch_spec:
  assumes "b < length ys"
  shows "\<exists>perm_idx ys_in ys_out y_lens.
           prepare_batch self ys = Inr (perm_idx, ys_in, ys_out, y_lens) \<and>
           length perm_idx = length ys \<and> set perm_idx = {0..<length ys} \<and> distinct perm_idx \<and>
           length ys_in = length ys \<and> length ys_out = length ys \<and> length y_lens = length ys \<and>
           (\<forall>i j. i < j \<and> j < length ys \<longrightarrow>
              length (ys ! (perm_idx ! j)) \<le> length (ys ! (perm_idx ! i)) \<and>
              (length (ys ! (perm_idx ! i)) = length (ys ! (perm_idx ! j)) \<longrightarrow>
                 perm_idx ! i < perm_idx ! j)) \<and>
           ys_in ! b = (self_sos self # ys ! (perm_idx ! b)) @
              replicate (length (ys ! (perm_idx ! 0)) - length (ys ! (perm_idx ! b))) (self_eos self) \<and>
           ys_out ! b = (ys ! (perm_idx ! b) @ [self_eos self]) @
              replicate (length (ys ! (perm_idx ! 0)) - length (ys ! (perm_idx ! b))) (- 1) \<and>
           y_lens ! b = length (ys ! (perm_idx ! b)) + 1"
  using assms by (rule prepare_batch_rows)

text \<open>
  The scenario of the claim: vocabulary size 5 and the single sequence \<open>[2, 3]\<close> give
  \<^verbatim>\<open>ys_in = [5, 2, 3]\<close>, \<^verbatim>\<open>ys_out = [2, 3, 5]\<close> and true length 3.
\<close>

theorem prepare_batch_spec_witness:
  "(0::nat) < length [[2::int, 3]] \<and>
   rnnlm_init 2 ''lstm'' False 3 1 5 False = Inr model5 \<and>
   (\<exists>perm_idx ys_in ys_out y_lens.
      prepare_batch model5 [[2, 3]] = Inr (perm_idx, ys_in, ys_out, y_lens) \<and>
      perm_idx = [0] \<and> ys_in ! 0 = [5, 2, 3] \<and> ys_out ! 0 = [2, 3, 5] \<and> y_lens ! 0 = 3)"
proof -
  have h: "(0::nat) < length [[2::int, 3]]" by simp
  from prepare_batch_spec[OF h, of model5] obtain perm_idx ys_in ys_out y_lens where
    p: "prepare_batch model5 [[2, 3]] = Inr (perm_idx, ys_in, ys_out, y_lens)"
    and l: "length perm_idx = 1" "set perm_idx = {0..<1}"
    and r: "ys_in ! 0 = (self_sos model5 # [[2, 3]] ! (perm_idx ! 0)) @
              replicate (length ([[2::int, 3]] ! (perm_idx ! 0)) - length ([[2::int, 3]] ! (perm_idx ! 0)))
                (self_eos model5)"
       "ys_out ! 0 = ([[2, 3]] ! (perm_idx ! 0) @ [self_eos model5]) @
              replicate (length ([[2::int, 3]] ! (perm_idx ! 0)) - length ([[2::int, 3]] ! (perm_idx ! 0)))
                (- 1)"
       "y_lens ! 0 = length ([[2::int, 3]] ! (perm_idx ! 0)) + 1"
    by auto
  from l have perm: "perm_idx = [0]" by (cases perm_idx) auto
  from r have "ys_in ! 0 = [5, 2, 3]" "ys_out ! 0 = [2, 3, 5]" "y_lens ! 0 = 3"
    unfolding perm by (simp_all add: model5_def)
  with p perm h model5_init show ?thesis by blast
qed

lemma forward_loss_value:
  assumes "ys \<noteq> []"
  shows "\<exists>perm_idx ys_in ys_out y_lens.
           prepare_batch self ys = Inr (perm_idx, ys_in, ys_out, y_lens) \<and>
           length ys_out = length ys \<and>
           (\<forall>b<length ys. length (ys_out ! b) = length (ys ! (perm_idx ! 0)) + 1) \<and>
           forward self net nll ys is_eval =
             Inr ((\<Sum>b<length ys. \<Sum>t<length (ys ! (perm_idx ! 0)) + 1.
                     if ys_out ! b ! t = - 1 then 0
                     else nll (net is_eval ys_in y_lens b t) (ys_out ! b ! t))
                  / real (length ys * (length (ys ! (perm_idx ! 0)) + 1)))"
proof -
  have b0: "0 < length ys" using assms by simp
  from prepare_batch_rows[OF b0, of self] obtain perm_idx ys_in ys_out y_lens where
    p: "prepare_batch self ys = Inr (perm_idx, ys_in, ys_out, y_lens)"
    and l: "length perm_idx = length ys" "length ys_out = length ys"
    and ord: "\<forall>i j. i < j \<and> j < length ys \<longrightarrow>
              length (ys ! (perm_idx ! j)) \<le> length (ys ! (perm_idx ! i)) \<and>
              (length (ys ! (perm_idx ! i)) = length (ys ! (perm_idx ! j)) \<longrightarrow>
                 perm_idx ! i < perm_idx ! j)"
    by blast
  let ?L = "length (ys ! (perm_idx ! 0)) + 1"
  have rows: "length (ys_out ! b) = ?L" if b: "b < length ys" for b
  proof -
    from prepare_batch_rows[OF b, of self] p
    have o: "ys_out ! b = (ys ! (perm_idx ! b) @ [self_eos self]) @
              replicate (length (ys ! (perm_idx ! 0)) - length (ys ! (perm_idx ! b))) (- 1)"
      by auto
    have "length (ys ! (perm_idx ! b)) \<le> length (ys ! (perm_idx ! 0))"
    proof (cases "b = 0")
      case True then show ?thesis by simp
    next
      case False with ord b show ?thesis by simp
    qed
    with o show ?thesis by simp
  qed
  then have all: "\<forall>r\<in>set ys_out. length r = ?L"
    using l(2) by (auto simp: in_set_conv_nth)
  have s0: "length (ys_out ! 0) = ?L" using rows[OF b0] .
  let ?f = "\<lambda>x t. if t = - 1 then 0 else nll x t"
  have "forward self net nll ys is_eval =
     Inr (sum_list (map2 ?f
            (concat (map (\<lambda>b. map (net is_eval ys_in y_lens b) [0..<?L]) [0..<length ys_out]))
            (concat ys_out)) / real (length ys_out * ?L))"
    unfolding forward_def p bind_err_def Let_def cross_entropy_def s0[symmetric] by simp
  also have "\<dots> = Inr ((\<Sum>b<length ys_out. \<Sum>t<?L. ?f (net is_eval ys_in y_lens b t) (ys_out ! b ! t))
                  / real (length ys_out * ?L))"
    by (simp only: flat_sum[OF all])
  finally show ?thesis using p l(2) rows by auto
qed

lemma forward_empty: "forward self net nll [] is_eval = Inl IndexError"
  by (simp add: forward_def prepare_batch_def sorted_reverse_def bind_err_def)

text \<open>
  Claim C8.  For every batch, a loss returned by \<^verbatim>\<open>forward\<close> is the sum of the
  per-position cross-entropy terms over all batch \<open>\<times>\<close> time positions whose target is not
  the ignore marker \<open>-1\<close>, divided by the batch size times the padded length (the longest
  sequence plus one), whatever the number of real tokens is; and \<^verbatim>\<open>forward\<close> returns a
  loss for every non-empty batch (on the empty one \<^verbatim>\<open>ys[0]\<close> raises \<^verbatim>\<open>IndexError\<close>).
\<close>

theorem forward_loss_normalisation:
  "(\<forall>loss. forward self net nll ys is_eval = Inr loss \<longrightarrow>
      (\<exists>perm_idx ys_in ys_out y_lens.
         prepare_batch self ys = Inr (perm_idx, ys_in, ys_out, y_lens) \<and>
         length ys_out = length ys \<and>
         (\<forall>b<length ys. length (ys_out ! b) = length (ys ! (perm_idx ! 0)) + 1) \<and>
         loss = (\<Sum>b<length ys. \<Sum>t<length (ys ! (perm_idx ! 0)) + 1.
                   if ys_out ! b ! t = - 1 then 0
                   else nll (net is_eval ys_in y_lens b t) (ys_out ! b ! t))
                / real (length ys * (length (ys ! (perm_idx ! 0)) + 1)))) \<and>
   (ys \<noteq> [] \<longrightarrow> (\<exists>loss. forward self net nll ys is_eval = Inr loss))"
proof (cases "ys = []")
  case True
  then show ?thesis by (simp add: forward_empty)
next
  case False
  from forward_loss_value[OF False, of self net nll is_eval]
  obtain perm_idx ys_in ys_out y_lens where
    v: "prepare_batch self ys = Inr (perm_idx, ys_in, ys_out, y_lens)"
       "length ys_out = length ys"
       "\<forall>b<length ys. length (ys_out ! b) = length (ys ! (perm_idx ! 0)) + 1"
       "forward self net nll ys is_eval =
             Inr ((\<Sum>b<length ys. \<Sum>t<length (ys ! (perm_idx ! 0)) + 1.
                     if ys_out ! b ! t = - 1 then 0
                     else nll (net is_eval ys_in y_lens b t) (ys_out ! b ! t))
                  / real (length ys * (length (ys ! (perm_idx ! 0)) + 1)))"
    by blast
  have "\<exists>perm_idx ys_in ys_out y_lens.
         prepare_batch self ys = Inr (perm_idx, ys_in, ys_out, y_lens) \<and>
         length ys_out = length ys \<and>
         (\<forall>b<length ys. length (ys_out ! b) = length (ys ! (perm_idx ! 0)) + 1) \<and>
         loss = (\<Sum>b<length ys. \<Sum>t<length (ys ! (perm_idx ! 0)) + 1.
                   if ys_out ! b ! t = - 1 then 0
                   else nll (net is_eval ys_in y_lens b t) (ys_out ! b ! t))
                / real (length ys * (length (ys ! (perm_idx ! 0)) + 1))"
    if "forward self net nll ys is_eval = Inr loss" for loss
  proof -
    from that v(4) have "loss = (\<Sum>b<length ys. \<Sum>t<length (ys ! (perm_idx ! 0)) + 1.
                   if ys_out ! b ! t = - 1 then 0
                   else nll (net is_eval ys_in y_lens b t) (ys_out ! b ! t))
                / real (length ys * (length (ys ! (perm_idx ! 0)) + 1))"
      by simp
    with v(1,2,3) show ?thesis by blast
  qed
  moreover have "\<exists>loss. forward self net nll ys is_eval = Inr loss" using v(4) by blast
  ultimately show ?thesis by blast
qed

text \<open>
  For the sequences \<open>[2, 3]\<close> and \<open>[1]\<close> and unit cost per position, five positions carry
  a real target and the padded extent is \<open>2 \<times> 3\<close>: the loss is \<open>5 / 6\<close>, not \<open>5 / 5\<close>.
\<close>

theorem forward_loss_normalisation_witness:
  "[[2::int, 3], [1]] \<noteq> [] \<and>
   prepare_batch model5 [[2, 3], [1]] =
     Inr ([0, 1], [[5, 2, 3], [5, 1, 5]], [[2, 3, 5], [1, 5, - 1]], [3, 2]) \<and>
   forward model5 unit_net unit_nll [[2, 3], [1]] False = Inr (5 / real (2 * 3))"
proof -
  have h: "[[2::int, 3], [1]] \<noteq> []" by simp
  have p: "prepare_batch model5 [[2, 3], [1]] =
     Inr ([0, 1], [[5, 2, 3], [5, 1, 5]], [[2, 3, 5], [1, 5, - 1]], [3, 2])"
    by code_simp
  from forward_loss_normalisation[of model5 unit_net unit_nll "[[2, 3], [1]]" False] h
  obtain loss where l: "forward model5 unit_net unit_nll [[2, 3], [1]] False = Inr loss"
    by blast
  with forward_loss_normalisation[of model5 unit_net unit_nll "[[2, 3], [1]]" False]
  have "loss = 5 / real (2 * 3)"
    unfolding p
    by (auto simp add: unit_nll_def lessThan_Suc numeral_2_eq_2 numeral_3_eq_3 field_simps)
  with h p l show ?thesis by simp
qed

section \<open>Properties of the constructor\<close>

text \<open>
  Claim C7, as stated: in weight-tying mode a mismatch between \<^verbatim>\<open>num_units\<close> and
  \<^verbatim>\<open>embedding_dim\<close> fails with the validation message.  With \<^verbatim>\<open>num_units = 3\<close> and
  \<^verbatim>\<open>embedding_dim = 2\<close> the constructor raises \<^verbatim>\<open>NotImplementedError\<close> instead; the
  validation stands behind that \<^verbatim>\<open>raise\<close> and is never reached.
\<close>

theorem rnnlm_init_tied_mismatch:
  "rnnlm_init 2 ''lstm'' False 3 1 5 True = Inl NotImplementedError \<and>
   rnnlm_init 2 ''lstm'' False 3 1 5 True \<noteq>
     Inl (ValueError ''When using the tied flag, num_units must be equal to embedding_dim'')"
  by (simp add: rnnlm_init_def bind_err_def)

text \<open>
  Claim C7, amended.  Whenever weight tying is selected, construction fails: with
  \<^verbatim>\<open>NotImplementedError\<close> if \<^verbatim>\<open>rnn_type\<close> is one of the three known cell types, whether
  or not the dimensions agree, and with the \<^verbatim>\<open>rnn_type\<close> validation error otherwise (that
  check comes first).
\<close>

theorem rnnlm_init_tie_weights:
  assumes "tie_weights"
  shows \<open>rnnlm_init embedding_dim rnn_type bidirectional num_units num_layers num_classes tie_weights =
          (if rnn_type = ''lstm'' \<or> rnn_type = ''gru'' \<or> rnn_type = ''rnn''
           then Inl NotImplementedError
           else Inl (ValueError ''rnn_type must be "lstm" or "gru" or "rnn".''))\<close>
  using assms by (simp add: rnnlm_init_def bind_err_def)

theorem rnnlm_init_tie_weights_witness:
  "rnnlm_init 2 ''gru'' False 2 1 5 True = Inl NotImplementedError"
  using rnnlm_init_tie_weights[of True 2 "''gru''" False 2 1 5] by simp

section \<open>Properties of the training-step executor\<close>

lemma try_block_parameters:
  "try_block ops c backend batch is_eval m = Inl (e, m') \<Longrightarrow>
   model_parameters m' = model_parameters m \<or>
   (\<exists>g. op_step ops (model_parameters m) g = Inl (e, model_parameters m'))"
  by (auto simp: try_block_def bind_st_def return_st_def zero_grad_def model_call_def
      loss_backward_def clip_grad_norm_step_def optimizer_step_def
      split: if_splits sum.splits prod.splits)

lemma try_block_runtime_backend:
  "try_block ops c backend batch is_eval m = Inl (e, m') \<Longrightarrow> is_runtime_error e \<Longrightarrow>
   backend = ''pytorch'' \<or> backend = ''chainer''"
  by (auto simp: try_block_def is_runtime_error_def split: if_splits)

text \<open>
  Claim C4, as stated: whenever the step raises a runtime error, the parameters are left
  unchanged.  The handler clears the gradients and restores nothing, so when it is the
  optimizer update that raises, after having written, what it wrote stays: on the test
  framework whose update lowers the parameter and then raises, the call returns the loss
  0 with the parameter 10 turned into 9.
\<close>

theorem updater_partial_update_stays:
  "try_block partial_ops 5 ''pytorch'' batch1 False \<lparr>model_parameters = 10, model_grads = 7\<rparr> =
     Inl (RuntimeError, \<lparr>model_parameters = 9, model_grads = 1\<rparr>) \<and>
   updater_call partial_ops 5 ''pytorch'' \<lparr>model_parameters = 10, model_grads = 7\<rparr> batch1 False =
     Inr (\<lparr>model_parameters = 9, model_grads = 0\<rparr>, Finite 0)"
  by (simp add: updater_call_def try_block_def bind_st_def return_st_def zero_grad_def
      model_call_def loss_backward_def clip_grad_norm_step_def optimizer_step_def
      partial_ops_def batch1_def is_runtime_error_def inf_guard_def)

text \<open>
  Claim C4, amended.  Whenever the \<^verbatim>\<open>try\<close> body raises a \<^verbatim>\<open>RuntimeError\<close> on a batch that
  has at least one example, the executor does not propagate it: it returns the loss
  value 0 and the model as it was when the exception was raised, with the gradients
  cleared.  The parameters of that model are the ones the executor was called with,
  unless the exception was raised by the optimizer update itself: then they are the
  parameters that the failed update left behind.
\<close>

theorem updater_contains_runtime_error:
  assumes "try_block ops clip_grad_norm backend batch is_eval m = Inl (e, m')"
    and "is_runtime_error e" and "batch_xs batch \<noteq> []"
  shows "updater_call ops clip_grad_norm backend m batch is_eval =
           Inr (m'\<lparr>model_grads := 0\<rparr>, Finite 0) \<and>
         (model_parameters m' = model_parameters m \<or>
          (\<exists>g. op_step ops (model_parameters m) g = Inl (e, model_parameters m')))"
proof -
  from try_block_runtime_backend[OF assms(1,2)]
  have b: "backend = ''pytorch'' \<or> backend = ''chainer''" .
  have p: "model_parameters m' = model_parameters m \<or>
          (\<exists>g. op_step ops (model_parameters m) g = Inl (e, model_parameters m'))"
    using assms(1) by (rule try_block_parameters)
  have "updater_call ops clip_grad_norm backend m batch is_eval =
          Inr (m'\<lparr>model_grads := 0\<rparr>, Finite 0)"
    using assms b by (auto simp: updater_call_def zero_grad_def inf_guard_def)
  with p show ?thesis by simp
qed

theorem updater_contains_runtime_error_witness:
  "try_block failing_ops 5 ''pytorch'' batch1 False \<lparr>model_parameters = 10, model_grads = 7\<rparr> =
     Inl (RuntimeError, \<lparr>model_parameters = 10, model_grads = 0\<rparr>) \<and>
   is_runtime_error RuntimeError \<and> batch_xs batch1 \<noteq> [] \<and>
   updater_call failing_ops 5 ''pytorch'' \<lparr>model_parameters = 10, model_grads = 7\<rparr> batch1 False =
     Inr (\<lparr>model_parameters = 10, model_grads = 0\<rparr>, Finite 0)"
proof -
  have t: "try_block failing_ops 5 ''pytorch'' batch1 False \<lparr>model_parameters = 10, model_grads = 7\<rparr> =
     Inl (RuntimeError, \<lparr>model_parameters = 10, model_grads = 0\<rparr>)"
    by (simp add: try_block_def bind_st_def zero_grad_def model_call_def failing_ops_def)
  have r: "is_runtime_error RuntimeError" by (simp add: is_runtime_error_def)
  have x: "batch_xs batch1 \<noteq> []" by (simp add: batch1_def)
  from updater_contains_runtime_error[OF t r x] t r x show ?thesis by simp
qed

text \<open>
  Claim C1 (the code departs from it).  With the backend \<^verbatim>\<open>'chainer'\<close> the two branches
  are exchanged: \<^verbatim>\<open>is_eval = True\<close> clears the gradients, runs the backward pass and the
  optimizer update.  On the test framework the parameter 10 becomes 9 during an
  evaluation call.
\<close>

theorem updater_chainer_eval_updates:
  "updater_call sgd_ops 5 ''chainer'' \<lparr>model_parameters = 10, model_grads = 7\<rparr> batch1 True =
     Inr (\<lparr>model_parameters = 9, model_grads = 1\<rparr>, Finite 1)"
  by (simp add: updater_call_def try_block_def bind_st_def return_st_def zero_grad_def
      model_call_def loss_backward_def optimizer_step_def sgd_ops_def inf_guard_def)

text \<open>The sibling branch for \<^verbatim>\<open>'pytorch'\<close> does leave the parameters alone.\<close>

lemma updater_pytorch_eval_frame:
  "updater_call ops c ''pytorch'' m batch True = Inr (m', l) \<Longrightarrow>
   model_parameters m' = model_parameters m"
  by (auto simp: updater_call_def try_block_def model_call_def zero_grad_def
      split: sum.splits prod.splits if_splits)

text \<open>
  On a batch without examples the handler itself raises while building its log message.
\<close>

lemma updater_empty_batch:
  "try_block ops c backend batch is_eval m = Inl (e, m') \<Longrightarrow> is_runtime_error e \<Longrightarrow>
   batch_xs batch = [] \<Longrightarrow>
   updater_call ops c backend m batch is_eval = Inl (ValueError ''max() arg is an empty sequence'')"
  by (simp add: updater_call_def)

section \<open>Properties of the evaluation driver\<close>








end
